theory Spec2Isabelle
  imports Complex_Main "HOL-Library.Sublist"
begin

section \<open>The XGBoost adapter of dtreeviz: \<open>dtreeviz/models/xgb_decision_tree.py\<close>\<close>

text \<open>
  The class \<open>XGBDTree\<close> reads one tree of a trained booster out of the table that
  \<open>Booster.trees_to_dataframe()\<close> returns and offers it through the interface of the
  shadow tree. The booster is an object of the xgboost library; the model below takes
  what the class reads from it as data: the node table, the list of feature names, the
  matrix of leaf predictions and the name of the objective.
\<close>

subsection \<open>Python values and exceptions\<close>

datatype error =
    IndexError
  | ValueError
  | OverflowError
  | VisualisationNotYetSupportedError string string

text \<open>
  A float of the table is a finite number or not-a-number. Infinities are left out: the
  table of a trained booster has none.
\<close>

datatype pyfloat = Finite real | NaN

definition isnan :: "pyfloat \<Rightarrow> bool" where
  "isnan x = (case x of NaN \<Rightarrow> True | Finite r \<Rightarrow> False)"

text \<open>
  A number that a method returns is a Python \<open>int\<close> or a float. Python compares the two
  by value: \<open>-2 == -2.0\<close> is true, and not-a-number equals nothing, itself included.
\<close>

datatype pynum = PyInt int | PyFloat pyfloat

fun py_eq :: "pynum \<Rightarrow> pynum \<Rightarrow> bool" where
  "py_eq (PyInt a) (PyInt b) = (a = b)"
| "py_eq (PyInt a) (PyFloat (Finite r)) = (of_int a = r)"
| "py_eq (PyFloat (Finite r)) (PyInt b) = (r = of_int b)"
| "py_eq (PyFloat (Finite r)) (PyFloat (Finite s)) = (r = s)"
| "py_eq (PyInt a) (PyFloat NaN) = False"
| "py_eq (PyFloat NaN) y = False"
| "py_eq (PyFloat (Finite r)) (PyFloat NaN) = False"

text \<open>
  Indexing a Python list or a one-dimensional numpy array with an integer: a negative
  index counts from the end, and an index out of range raises \<open>IndexError\<close>.
\<close>

definition item_at :: "'a list \<Rightarrow> int \<Rightarrow> error + 'a" where
  "item_at xs i =
     (if 0 \<le> i \<and> i < int (length xs) then Inr (xs ! nat i)
      else if i < 0 \<and> - int (length xs) \<le> i then Inr (xs ! nat (int (length xs) + i))
      else Inl IndexError)"

text \<open>\<open>list.index(x)\<close>: the first position of \<open>x\<close>, or \<open>ValueError\<close>.\<close>

fun py_index :: "'a list \<Rightarrow> 'a \<Rightarrow> error + nat" where
  "py_index [] x = Inl ValueError"
| "py_index (y # ys) x =
     (if y = x then Inr 0
      else (case py_index ys x of Inl e \<Rightarrow> Inl e | Inr i \<Rightarrow> Inr (Suc i)))"

text \<open>
  \<open>np.where(arr == x)[0][0]\<close>: the first position of \<open>x\<close> in the array; when there is
  none, the second \<open>[0]\<close> indexes an empty array and raises \<open>IndexError\<close>.
\<close>

fun where_first :: "int list \<Rightarrow> int \<Rightarrow> error + nat" where
  "where_first [] x = Inl IndexError"
| "where_first (a # as) x =
     (if a = x then Inr 0
      else (case where_first as x of Inl e \<Rightarrow> Inl e | Inr i \<Rightarrow> Inr (Suc i)))"

subsection \<open>Strings\<close>

text \<open>\<open>s.split(sep)\<close> for a separator of one character: every occurrence splits.\<close>

fun split_on :: "char \<Rightarrow> string \<Rightarrow> string list" where
  "split_on sep [] = [[]]"
| "split_on sep (c # cs) =
     (if c = sep then [] # split_on sep cs
      else (case split_on sep cs of
              [] \<Rightarrow> [[c]]
            | p # ps \<Rightarrow> (c # p) # ps))"

text \<open>
  \<open>int(s)\<close> for a string, in base ten: white space around the number is dropped, one
  sign may come first, and the digits may be grouped by single underscores. Characters
  are bytes here, so the digits and the white space beyond ASCII that Python also takes
  are outside the model.
\<close>

definition is_space :: "char \<Rightarrow> bool" where
  "is_space c = (let k = (of_char c :: nat) in (9 \<le> k \<and> k \<le> 13) \<or> (28 \<le> k \<and> k \<le> 32))"

definition is_digit :: "char \<Rightarrow> bool" where
  "is_digit c = (let k = (of_char c :: nat) in 48 \<le> k \<and> k \<le> 57)"

definition digit_val :: "char \<Rightarrow> nat" where
  "digit_val c = of_char c - 48"

definition strip :: "string \<Rightarrow> string" where
  "strip s = rev (dropWhile is_space (rev (dropWhile is_space s)))"

fun parse_digits :: "nat \<Rightarrow> bool \<Rightarrow> string \<Rightarrow> nat option" where
  "parse_digits acc after_digit [] = (if after_digit then Some acc else None)"
| "parse_digits acc after_digit (c # cs) =
     (if is_digit c then parse_digits (10 * acc + digit_val c) True cs
      else if c = CHR ''_'' \<and> after_digit then parse_digits acc False cs
      else None)"

definition int_of_str :: "string \<Rightarrow> error + int" where
  "int_of_str s =
     (case strip s of
        [] \<Rightarrow> Inl ValueError
      | c # cs \<Rightarrow>
          if c = CHR ''+'' then
            (case parse_digits 0 False cs of None \<Rightarrow> Inl ValueError | Some n \<Rightarrow> Inr (int n))
          else if c = CHR ''-'' then
            (case parse_digits 0 False cs of None \<Rightarrow> Inl ValueError | Some n \<Rightarrow> Inr (- int n))
          else
            (case parse_digits 0 False (c # cs) of None \<Rightarrow> Inl ValueError | Some n \<Rightarrow> Inr (int n)))"

text \<open>\<open>str(n)\<close> for a natural number: its decimal digits.\<close>

definition digit_char :: "nat \<Rightarrow> char" where
  "digit_char d = char_of (48 + d)"

function str_nat :: "nat \<Rightarrow> string" where
  "str_nat n = (if n < 10 then [digit_char n] else str_nat (n div 10) @ [digit_char (n mod 10)])"
  by pat_completeness auto
termination
  by (relation "measure (\<lambda>n. n)") auto

declare str_nat.simps [simp del]

subsection \<open>The node table\<close>

text \<open>
  A cell of a child column (\<open>Yes\<close>, \<open>No\<close>) is a string such as \<open>0-7\<close>, an integer, or
  missing (\<open>NaN\<close> or \<open>None\<close>, which pandas treats alike in \<open>fillna\<close>). A row has the
  columns of \<open>trees_to_dataframe()\<close>; \<open>Missing\<close>, \<open>Gain\<close> and \<open>Cover\<close>, which the class
  never reads, are left out.
\<close>

datatype cell = StrCell string | IntCell int | Missing

record row =
  Tree :: nat
  Node :: nat
  ID :: string
  Feature :: string
  Split :: pyfloat
  Yes :: cell
  No :: cell

text \<open>
  What the class reads from the booster: \<open>trees_to_dataframe()\<close>, \<open>feature_names\<close>,
  the result of \<open>predict(..., pred_leaf=True)\<close> on the training data, stored by columns
  (one list of leaf ids per tree, one entry per sample), and the objective name of
  \<open>save_config()\<close>.
\<close>

record booster =
  trees_to_dataframe :: "row list"
  feature_names :: "string list"
  pred_leaf :: "int list list"
  objective_name :: string

definition LEFT_CHILDREN_COLUMN :: string where "LEFT_CHILDREN_COLUMN = ''Yes''"
definition RIGHT_CHILDREN_COLUMN :: string where "RIGHT_CHILDREN_COLUMN = ''No''"
definition NO_CHILDREN :: int where "NO_CHILDREN = -1"
definition NO_SPLIT :: int where "NO_SPLIT = -2"
definition NO_FEATURE :: int where "NO_FEATURE = -2"
definition ROOT_NODE :: int where "ROOT_NODE = 0"

text \<open>
  \<open>row.get(column_name)\<close>: the cell of the row under that label, \<open>None\<close> for a label
  that is no column. The class calls it with the two child columns only; the columns of
  floats (\<open>Split\<close>, \<open>Gain\<close>, \<open>Cover\<close>) have no cell in this model, and the properties
  below are about the child columns.
\<close>

definition row_get :: "row \<Rightarrow> string \<Rightarrow> cell" where
  "row_get r column_name =
     (if column_name = ''Yes'' then Yes r
      else if column_name = ''No'' then No r
      else if column_name = ''Tree'' then IntCell (int (Tree r))
      else if column_name = ''Node'' then IntCell (int (Node r))
      else if column_name = ''ID'' then StrCell (ID r)
      else if column_name = ''Feature'' then StrCell (Feature r)
      else Missing)"

text \<open>\<open>_get_tree_dataframe\<close>: the rows of the selected tree, in the order of the table.\<close>

definition get_tree_dataframe :: "booster \<Rightarrow> int \<Rightarrow> row list" where
  "get_tree_dataframe b tree_index =
     filter (\<lambda>r. int (Tree r) = tree_index) (trees_to_dataframe b)"

text \<open>
  \<open>split_value\<close>, the inner function of \<open>_split_column_value\<close>: the second piece of a
  string split at \<open>-\<close>, any other value as it is.
\<close>

definition split_value :: "cell \<Rightarrow> error + cell" where
  "split_value v =
     (case v of
        StrCell s \<Rightarrow> (case item_at (split_on CHR ''-'' s) 1 of Inl e \<Rightarrow> Inl e | Inr p \<Rightarrow> Inr (StrCell p))
      | IntCell k \<Rightarrow> Inr (IntCell k)
      | Missing \<Rightarrow> Inr Missing)"

text \<open>Applying a function that may raise to every element in order: the first error wins.\<close>

fun map_raise :: "('a \<Rightarrow> error + 'b) \<Rightarrow> 'a list \<Rightarrow> error + 'b list" where
  "map_raise f [] = Inr []"
| "map_raise f (x # xs) =
     (case f x of
        Inl e \<Rightarrow> Inl e
      | Inr y \<Rightarrow> (case map_raise f xs of Inl e \<Rightarrow> Inl e | Inr ys \<Rightarrow> Inr (y # ys)))"

definition split_column_value :: "row list \<Rightarrow> string \<Rightarrow> error + cell list" where
  "split_column_value tree_to_dataframe column_name =
     map_raise (\<lambda>r. split_value (row_get r column_name)) tree_to_dataframe"

definition change_no_children_value :: "cell list \<Rightarrow> cell list" where
  "change_no_children_value children =
     map (\<lambda>v. case v of Missing \<Rightarrow> IntCell NO_CHILDREN | StrCell s \<Rightarrow> StrCell s | IntCell k \<Rightarrow> IntCell k) children"

text \<open>
  \<open>to_numpy(dtype=int)\<close>: every element becomes a 64-bit integer, a string through
  \<open>int(s)\<close>; a number out of the range of the type raises \<open>OverflowError\<close>.
\<close>

definition in_int64 :: "int \<Rightarrow> error + int" where
  "in_int64 k = (if - (2 ^ 63) \<le> k \<and> k < 2 ^ 63 then Inr k else Inl OverflowError)"

definition cell_to_int :: "cell \<Rightarrow> error + int" where
  "cell_to_int v =
     (case v of
        StrCell s \<Rightarrow> (case int_of_str s of Inl e \<Rightarrow> Inl e | Inr k \<Rightarrow> in_int64 k)
      | IntCell k \<Rightarrow> in_int64 k
      | Missing \<Rightarrow> Inl ValueError)"

definition calculate_children :: "row list \<Rightarrow> string \<Rightarrow> error + int list" where
  "calculate_children tree_to_dataframe column_name =
     (case split_column_value tree_to_dataframe column_name of
        Inl e \<Rightarrow> Inl e
      | Inr children \<Rightarrow> map_raise cell_to_int (change_no_children_value children))"

subsection \<open>The adapter\<close>

text \<open>
  The fields that \<open>__init__\<close> sets before it calls the constructor of the base class.
  The base class is not part of this file of the repository; of what it stores, the
  methods below read the training data (through \<open>pred_leaf\<close>) and the booster again
  under the name \<open>tree_model\<close>. \<open>XGBDTree_init\<close> is the part of \<open>__init__\<close> up to the
  two child arrays: a result \<open>Inr self\<close> says that this part raises nothing and gives
  the fields it has set; the call of the base-class constructor that follows has no
  step here.
\<close>

record XGBDTree =
  booster :: booster
  tree_index :: int
  tree_to_dataframe :: "row list"
  children_left :: "int list"
  children_right :: "int list"

definition XGBDTree_init :: "booster \<Rightarrow> int \<Rightarrow> error + XGBDTree" where
  "XGBDTree_init b ti =
     (let df = get_tree_dataframe b ti in
      case calculate_children df LEFT_CHILDREN_COLUMN of
        Inl e \<Rightarrow> Inl e
      | Inr left \<Rightarrow>
          (case calculate_children df RIGHT_CHILDREN_COLUMN of
             Inl e \<Rightarrow> Inl e
           | Inr right \<Rightarrow>
               Inr \<lparr>booster = b, tree_index = ti, tree_to_dataframe = df,
                    children_left = left, children_right = right\<rparr>))"

definition nnodes :: "XGBDTree \<Rightarrow> nat" where
  "nnodes self = length (tree_to_dataframe self)"

definition get_children_left :: "XGBDTree \<Rightarrow> error + int list" where
  "get_children_left self = calculate_children (tree_to_dataframe self) LEFT_CHILDREN_COLUMN"

definition get_children_right :: "XGBDTree \<Rightarrow> error + int list" where
  "get_children_right self = calculate_children (tree_to_dataframe self) RIGHT_CHILDREN_COLUMN"

text \<open>
  \<open>_get_column_value\<close> filters the table of the booster again and takes one column of
  it; the two columns that the accessors read are typed, so there is one function each.
\<close>

definition get_column_value_Split :: "XGBDTree \<Rightarrow> pyfloat list" where
  "get_column_value_Split self = map Split (get_tree_dataframe (booster self) (tree_index self))"

definition get_column_value_Feature :: "XGBDTree \<Rightarrow> string list" where
  "get_column_value_Feature self = map Feature (get_tree_dataframe (booster self) (tree_index self))"

definition get_node_split :: "XGBDTree \<Rightarrow> int \<Rightarrow> error + pynum" where
  "get_node_split self id' =
     (case item_at (get_column_value_Split self) id' of
        Inl e \<Rightarrow> Inl e
      | Inr node_split \<Rightarrow>
          Inr (if \<not> isnan node_split then PyFloat node_split else PyInt NO_SPLIT))"

definition get_node_feature :: "XGBDTree \<Rightarrow> int \<Rightarrow> error + int" where
  "get_node_feature self id' =
     (case item_at (get_column_value_Feature self) id' of
        Inl e \<Rightarrow> Inl e
      | Inr feature_name \<Rightarrow>
          (case py_index (feature_names (booster self)) feature_name of
             Inr i \<Rightarrow> Inr (int i)
           | Inl ValueError \<Rightarrow> Inr NO_FEATURE
           | Inl e \<Rightarrow> Inl e))"

subsection \<open>Routing the samples\<close>

text \<open>
  \<open>walk\<close>, the inner function of \<open>_get_leaf_prediction_path\<close>, appends to the list
  \<open>prediction_path\<close> of the enclosing call; here it takes the list and returns it. Each
  \<open>try\<close> block catches the \<open>IndexError\<close> of a search that finds nothing. A recursion
  that does not end has the value \<open>None\<close>; the bound that the interpreter puts on the
  depth of recursion is not part of the model.
\<close>

partial_function (option) walk :: "int list \<Rightarrow> int list \<Rightarrow> int \<Rightarrow> int list \<Rightarrow> int list option" where
  "walk left right node_id prediction_path =
     (if node_id \<noteq> ROOT_NODE then
        Option.bind
          (case where_first left node_id of
             Inr parent_node \<Rightarrow>
               walk left right (int parent_node) (prediction_path @ [int parent_node])
           | Inl e \<Rightarrow> Some prediction_path)
          (\<lambda>path1.
             case where_first right node_id of
               Inr parent_node \<Rightarrow> walk left right (int parent_node) (path1 @ [int parent_node])
             | Inl e \<Rightarrow> Some path1)
      else Some prediction_path)"

declare walk.simps [code]

definition get_leaf_prediction_path :: "XGBDTree \<Rightarrow> int \<Rightarrow> int list option" where
  "get_leaf_prediction_path self leaf = walk (children_left self) (children_right self) leaf [leaf]"

text \<open>
  \<open>node_to_samples\<close> is a \<open>defaultdict(list)\<close>: reading a key that is not there gives
  the empty list.
\<close>

type_synonym node_to_samples = "int \<rightharpoonup> nat list"

definition dd_get :: "node_to_samples \<Rightarrow> int \<Rightarrow> nat list" where
  "dd_get d k = (case d k of None \<Rightarrow> [] | Some xs \<Rightarrow> xs)"

fun append_sample :: "node_to_samples \<Rightarrow> nat \<Rightarrow> int list \<Rightarrow> node_to_samples" where
  "append_sample d sample_i [] = d"
| "append_sample d sample_i (node_id # prediction_path) =
     append_sample (d(node_id \<mapsto> dd_get d node_id @ [sample_i])) sample_i prediction_path"

fun route_samples :: "XGBDTree \<Rightarrow> (nat \<times> int) list \<Rightarrow> node_to_samples \<Rightarrow> node_to_samples option" where
  "route_samples self [] d = Some d"
| "route_samples self ((sample_i, prediction_leaf) # rest) d =
     (case get_leaf_prediction_path self prediction_leaf of
        None \<Rightarrow> None
      | Some prediction_path \<Rightarrow> route_samples self rest (append_sample d sample_i prediction_path))"

text \<open>
  \<open>predict(..., pred_leaf=True)[:, tree_index]\<close>: the column of the selected tree, with
  the index rules of numpy, for a result of \<open>predict\<close> that is a matrix with one column
  per tree. Where the library returns a one-dimensional array instead (a booster of a
  single tree), the selection raises \<open>IndexError\<close> for every index; the properties below
  take a selection that succeeds as a hypothesis only.
\<close>

definition prediction_leaves :: "XGBDTree \<Rightarrow> error + int list" where
  "prediction_leaves self = item_at (pred_leaf (booster self)) (tree_index self)"

definition get_node_samples :: "XGBDTree \<Rightarrow> (error + node_to_samples) option" where
  "get_node_samples self =
     (case prediction_leaves self of
        Inl e \<Rightarrow> Some (Inl e)
      | Inr leaves \<Rightarrow>
          map_option Inr (route_samples self (enumerate 0 leaves) Map.empty))"

subsection \<open>Classifier or regressor, and what is not supported\<close>

text \<open>
  \<open>is_classifier\<close> returns \<open>True\<close>, \<open>False\<close> or \<open>None\<close>; the objective name is what
  \<open>config["learner"]["objective"]["name"]\<close> holds.
\<close>

definition is_classifier :: "XGBDTree \<Rightarrow> error + bool option" where
  "is_classifier self =
     (case item_at (split_on CHR '':'' (objective_name (booster self))) 0 of
        Inl e \<Rightarrow> Inl e
      | Inr name \<Rightarrow>
          Inr (if name = ''binary'' then Some True
               else if name = ''reg'' then Some False
               else None))"

definition criterion :: "XGBDTree \<Rightarrow> error + unit" where
  "criterion self = Inl (VisualisationNotYetSupportedError ''criterion()'' ''XGBoost'')"

definition get_feature_path_importance :: "XGBDTree \<Rightarrow> 'a \<Rightarrow> error + unit" where
  "get_feature_path_importance self node_list =
     Inl (VisualisationNotYetSupportedError ''get_feature_path_importance()'' ''XGBoost'')"

definition get_node_criterion :: "XGBDTree \<Rightarrow> error + unit" where
  "get_node_criterion self =
     Inl (VisualisationNotYetSupportedError ''get_node_criterion()'' ''XGBoost'')"

definition get_max_depth :: "XGBDTree \<Rightarrow> error + unit" where
  "get_max_depth self = Inl (VisualisationNotYetSupportedError ''get_max_depth()'' ''XGBoost'')"

definition get_score :: "XGBDTree \<Rightarrow> error + unit" where
  "get_score self = Inl (VisualisationNotYetSupportedError ''get_score()'' ''XGBoost'')"

definition get_min_samples_leaf :: "XGBDTree \<Rightarrow> error + unit" where
  "get_min_samples_leaf self =
     Inl (VisualisationNotYetSupportedError ''get_min_samples_leaf()'' ''XGBoost'')"

subsection \<open>Well-formed inputs\<close>

text \<open>
  A compound identifier of the table: tree index and node index joined by \<open>-\<close>, as in
  \<open>0-7\<close>. In the table of one tree \<open>t\<close>, the row at position \<open>i\<close> is node \<open>i\<close> and has
  the identifier of \<open>t\<close> and \<open>i\<close>; the positions fit the 64-bit integers of the child
  arrays.
\<close>

definition compound_ref :: "nat \<Rightarrow> nat \<Rightarrow> string" where
  "compound_ref t n = str_nat t @ ''-'' @ str_nat n"

definition node_table :: "nat \<Rightarrow> row list \<Rightarrow> bool" where
  "node_table t df \<longleftrightarrow>
     int (length df) \<le> 2 ^ 63 \<and>
     list_all (\<lambda>i. Tree (df ! i) = t \<and> Node (df ! i) = i \<and> ID (df ! i) = compound_ref t i)
       [0..<length df]"

text \<open>
  A cell names the row at position \<open>j\<close> by the identifier of that row, or, in a column
  that is numeric already, by its node index. The references of a column resolve when
  every cell is missing or names a row of the table.
\<close>

definition refers_to :: "row list \<Rightarrow> cell \<Rightarrow> nat \<Rightarrow> bool" where
  "refers_to df c j \<longleftrightarrow> c = StrCell (ID (df ! j)) \<or> c = IntCell (int (Node (df ! j)))"

definition child_refs_resolve :: "row list \<Rightarrow> string \<Rightarrow> bool" where
  "child_refs_resolve df column_name \<longleftrightarrow>
     list_all (\<lambda>r. row_get r column_name = Missing \<or>
                   list_ex (refers_to df (row_get r column_name)) [0..<length df]) df"

text \<open>
  The table has the shape of a tree when, over the two child columns together, no cell
  names the root and every other row is named by exactly one cell.
\<close>

definition child_cells :: "row list \<Rightarrow> cell list" where
  "child_cells df = map Yes df @ map No df"

definition tree_shaped_table :: "row list \<Rightarrow> bool" where
  "tree_shaped_table df \<longleftrightarrow>
     child_refs_resolve df LEFT_CHILDREN_COLUMN \<and>
     child_refs_resolve df RIGHT_CHILDREN_COLUMN \<and>
     list_all (\<lambda>j. length (filter (\<lambda>c. refers_to df c j) (child_cells df)) = (if j = 0 then 0 else 1))
       [0..<length df]"

text \<open>
  The child arrays form a tree rooted at node 0 when every node but the root occurs
  exactly once in the two arrays together (it has one parent), and climbing from any
  node to the parent, that is to the position where the node occurs, arrives at the
  root; with \<open>n\<close> nodes, \<open>n\<close> steps are enough unless the climb runs in a cycle.
\<close>

definition parent_of :: "int list \<Rightarrow> int list \<Rightarrow> int \<Rightarrow> nat option" where
  "parent_of left right i =
     (case where_first left i of
        Inr p \<Rightarrow> Some p
      | Inl e \<Rightarrow> (case where_first right i of Inr p \<Rightarrow> Some p | Inl e' \<Rightarrow> None))"

fun reaches_root :: "int list \<Rightarrow> int list \<Rightarrow> nat \<Rightarrow> int \<Rightarrow> bool" where
  "reaches_root left right 0 i = (i = ROOT_NODE)"
| "reaches_root left right (Suc k) i =
     (i = ROOT_NODE \<or>
      (case parent_of left right i of
         None \<Rightarrow> False
       | Some p \<Rightarrow> reaches_root left right k (int p)))"

definition well_formed_tree :: "int list \<Rightarrow> int list \<Rightarrow> bool" where
  "well_formed_tree left right \<longleftrightarrow>
     left \<noteq> [] \<and> length right = length left \<and>
     list_all (\<lambda>i. count_list (left @ right) (int i) = 1) [1..<length left] \<and>
     list_all (\<lambda>i. reaches_root left right (length left) (int i)) [0..<length left]"

subsection \<open>Example models\<close>

text \<open>
  A booster of two trees over one feature, with three training samples. Tree 0 splits
  once (root 0, leaves 1 and 2); tree 1 is a single leaf.
\<close>

definition example_rows :: "row list" where
  "example_rows =
     [\<lparr>Tree = 0, Node = 0, ID = ''0-0'', Feature = ''f0'', Split = Finite 3,
        Yes = StrCell ''0-1'', No = StrCell ''0-2''\<rparr>,
      \<lparr>Tree = 0, Node = 1, ID = ''0-1'', Feature = ''Leaf'', Split = NaN,
        Yes = Missing, No = Missing\<rparr>,
      \<lparr>Tree = 0, Node = 2, ID = ''0-2'', Feature = ''Leaf'', Split = NaN,
        Yes = Missing, No = Missing\<rparr>,
      \<lparr>Tree = 1, Node = 0, ID = ''1-0'', Feature = ''Leaf'', Split = NaN,
        Yes = Missing, No = Missing\<rparr>]"

definition example_booster :: booster where
  "example_booster =
     \<lparr>trees_to_dataframe = example_rows, feature_names = [''f0''],
      pred_leaf = [[1, 2, 1], [0, 0, 0]], objective_name = ''binary:logistic''\<rparr>"

definition example_tree :: XGBDTree where
  "example_tree =
     \<lparr>booster = example_booster, tree_index = 0, tree_to_dataframe = take 3 example_rows,
      children_left = [1, -1, -1], children_right = [2, -1, -1]\<rparr>"

text \<open>The adapter for the tree index 2, which the booster does not have.\<close>

definition absent_tree :: XGBDTree where
  "absent_tree =
     \<lparr>booster = example_booster, tree_index = 2, tree_to_dataframe = [],
      children_left = [], children_right = []\<rparr>"

text \<open>A booster whose only split has the threshold \<open>-2.0\<close>.\<close>

definition minus_two_booster :: booster where
  "minus_two_booster =
     \<lparr>trees_to_dataframe =
        [\<lparr>Tree = 0, Node = 0, ID = ''0-0'', Feature = ''f0'', Split = Finite (- 2),
           Yes = StrCell ''0-1'', No = StrCell ''0-2''\<rparr>,
         \<lparr>Tree = 0, Node = 1, ID = ''0-1'', Feature = ''Leaf'', Split = NaN,
           Yes = Missing, No = Missing\<rparr>,
         \<lparr>Tree = 0, Node = 2, ID = ''0-2'', Feature = ''Leaf'', Split = NaN,
           Yes = Missing, No = Missing\<rparr>],
      feature_names = [''f0''], pred_leaf = [[1, 2]], objective_name = ''reg:squarederror''\<rparr>"

definition minus_two_tree :: XGBDTree where
  "minus_two_tree =
     \<lparr>booster = minus_two_booster, tree_index = 0,
      tree_to_dataframe = trees_to_dataframe minus_two_booster,
      children_left = [1, -1, -1], children_right = [2, -1, -1]\<rparr>"

text \<open>An adapter whose objective name begins with \<open>binary\<close> and goes on before the colon.\<close>

definition binaryclass_tree :: XGBDTree where
  "binaryclass_tree =
     example_tree\<lparr>booster := example_booster\<lparr>objective_name := ''binaryclass:logistic''\<rparr>\<rparr>"

section \<open>Properties\<close>

subsection \<open>Auxiliary facts\<close>

lemma init_fields:
  assumes "XGBDTree_init b ti = Inr self"
  shows "booster self = b" and "tree_index self = ti"
    and "tree_to_dataframe self = get_tree_dataframe b ti"
    and "calculate_children (get_tree_dataframe b ti) LEFT_CHILDREN_COLUMN = Inr (children_left self)"
    and "calculate_children (get_tree_dataframe b ti) RIGHT_CHILDREN_COLUMN = Inr (children_right self)"
  using assms by (auto simp: XGBDTree_init_def Let_def split: sum.splits)

lemma item_at_valid: "0 \<le> i \<Longrightarrow> i < int (length xs) \<Longrightarrow> item_at xs i = Inr (xs ! nat i)"
  by (simp add: item_at_def)

lemma py_index_absent: "x \<notin> set xs \<Longrightarrow> py_index xs x = Inl ValueError"
  by (induction xs) auto

lemma py_index_present:
  "x \<in> set xs \<Longrightarrow> \<exists>i. py_index xs x = Inr i \<and> i < length xs \<and> xs ! i = x \<and> (\<forall>j<i. xs ! j \<noteq> x)"
proof (induction xs)
  case Nil
  then show ?case by simp
next
  case (Cons y ys)
  show ?case
  proof (cases "y = x")
    case True
    then show ?thesis by simp
  next
    case False
    with Cons obtain i where i: "py_index ys x = Inr i" "i < length ys" "ys ! i = x" "\<forall>j<i. ys ! j \<noteq> x"
      by auto
    have "\<forall>j<Suc i. (y # ys) ! j \<noteq> x"
      using False i(4) by (auto simp: nth_Cons split: nat.splits)
    with False i show ?thesis by simp
  qed
qed

lemma split_on_first: "item_at (split_on sep s) 0 = Inr (takeWhile (\<lambda>c. c \<noteq> sep) s)"
  by (induction s) (auto simp: item_at_def split: list.splits)

subsection \<open>Node attributes\<close>

text \<open>
  C2, as stated: \<open>get_node_split(id)\<close> returns the sentinel \<open>-2\<close> if and only if the raw
  \<open>Split\<close> value of the node is not-a-number. This fails for a node whose threshold is
  \<open>-2.0\<close>: the raw value is a number, it is returned unchanged, and it equals the
  sentinel.
\<close>

theorem get_node_split_collides_counterexample:
  "XGBDTree_init minus_two_booster 0 = Inr minus_two_tree \<and>
   0 < nnodes minus_two_tree \<and>
   get_node_split minus_two_tree 0 = Inr (PyFloat (Finite (- 2))) \<and>
   py_eq (PyFloat (Finite (- 2))) (PyInt NO_SPLIT) \<and>
   \<not> isnan (Split (tree_to_dataframe minus_two_tree ! 0))"
  by code_simp

text \<open>
  C2, amended: for every valid node id of a constructed adapter, \<open>get_node_split(id)\<close>
  returns the integer sentinel \<open>-2\<close> when the raw \<open>Split\<close> value is not-a-number and the
  raw value unchanged otherwise; so the result equals \<open>-2\<close> if and only if the raw value
  is not-a-number or is itself \<open>-2.0\<close>.
\<close>

theorem get_node_split_sentinel:
  assumes "XGBDTree_init b ti = Inr self" and "0 \<le> id'" and "id' < int (nnodes self)"
  shows "get_node_split self id' =
           Inr (if isnan (Split (tree_to_dataframe self ! nat id')) then PyInt NO_SPLIT
                else PyFloat (Split (tree_to_dataframe self ! nat id'))) \<and>
         (\<exists>v. get_node_split self id' = Inr v \<and>
              (py_eq v (PyInt NO_SPLIT) \<longleftrightarrow>
                 isnan (Split (tree_to_dataframe self ! nat id')) \<or>
                 Split (tree_to_dataframe self ! nat id') = Finite (- 2)))"
proof -
  let ?df = "get_tree_dataframe b ti"
  have df: "tree_to_dataframe self = ?df" "booster self = b" "tree_index self = ti"
    using init_fields [OF assms(1)] by simp_all
  have len: "id' < int (length ?df)"
    using assms(3) df by (simp add: nnodes_def)
  have nth: "item_at (map Split ?df) id' = Inr (Split (?df ! nat id'))"
    using assms(2) len by (simp add: item_at_valid)
  have eq: "get_node_split self id' =
      Inr (if isnan (Split (?df ! nat id')) then PyInt NO_SPLIT else PyFloat (Split (?df ! nat id')))"
    using nth by (simp add: get_node_split_def get_column_value_Split_def df)
  show ?thesis
    unfolding eq df
    by (cases "Split (?df ! nat id')") (auto simp: isnan_def NO_SPLIT_def)
qed

theorem get_node_split_sentinel_witness:
  "XGBDTree_init example_booster 0 = Inr example_tree \<and> (0::int) \<le> 1 \<and> 1 < int (nnodes example_tree) \<and>
   get_node_split example_tree 1 = Inr (PyInt NO_SPLIT) \<and>
   get_node_split example_tree 0 = Inr (PyFloat (Finite 3))"
proof -
  have h: "XGBDTree_init example_booster 0 = Inr example_tree" by code_simp
  have n: "1 < int (nnodes example_tree)" "0 < int (nnodes example_tree)" by code_simp+
  have r: "Split (tree_to_dataframe example_tree ! nat 1) = NaN" "Split (tree_to_dataframe example_tree ! nat 0) = Finite 3"
    by code_simp+
  show ?thesis
    using h n get_node_split_sentinel [OF h _ n(1)] get_node_split_sentinel [OF h _ n(2)] r
    by (simp add: isnan_def)
qed

text \<open>
  C3: for every valid node id of a constructed adapter, \<open>get_node_feature(id)\<close> returns
  the sentinel \<open>-2\<close> if and only if the feature name of the node is not in the list of
  feature names of the model; otherwise it returns the first position of the name in
  that list. It raises nothing: the \<open>ValueError\<close> of the failed lookup is caught.
\<close>

theorem get_node_feature_sentinel:
  assumes "XGBDTree_init b ti = Inr self" and "0 \<le> id'" and "id' < int (nnodes self)"
  shows "\<exists>v. get_node_feature self id' = Inr v \<and>
           (v = NO_FEATURE \<longleftrightarrow>
              Feature (tree_to_dataframe self ! nat id') \<notin> set (feature_names (booster self))) \<and>
           (Feature (tree_to_dataframe self ! nat id') \<in> set (feature_names (booster self)) \<longrightarrow>
              0 \<le> v \<and> nat v < length (feature_names (booster self)) \<and>
              feature_names (booster self) ! nat v = Feature (tree_to_dataframe self ! nat id') \<and>
              (\<forall>j<nat v. feature_names (booster self) ! j \<noteq> Feature (tree_to_dataframe self ! nat id')))"
proof -
  let ?df = "get_tree_dataframe b ti"
  let ?name = "Feature (?df ! nat id')"
  have df: "tree_to_dataframe self = ?df" "booster self = b" "tree_index self = ti"
    using init_fields [OF assms(1)] by simp_all
  have len: "id' < int (length ?df)"
    using assms(3) df by (simp add: nnodes_def)
  have nth: "item_at (map Feature ?df) id' = Inr ?name"
    using assms(2) len by (simp add: item_at_valid)
  show ?thesis
  proof (cases "?name \<in> set (feature_names b)")
    case True
    from py_index_present [OF True] obtain i where i: "py_index (feature_names b) ?name = Inr i"
      "i < length (feature_names b)" "feature_names b ! i = ?name"
      "\<forall>j<i. feature_names b ! j \<noteq> ?name" by blast
    have "get_node_feature self id' = Inr (int i)"
      using nth i(1) by (simp add: get_node_feature_def get_column_value_Feature_def df)
    with True i show ?thesis by (simp add: df NO_FEATURE_def)
  next
    case False
    have "get_node_feature self id' = Inr NO_FEATURE"
      using nth py_index_absent [OF False]
      by (simp add: get_node_feature_def get_column_value_Feature_def df)
    with False show ?thesis by (simp add: df)
  qed
qed

theorem get_node_feature_sentinel_witness:
  "XGBDTree_init example_booster 0 = Inr example_tree \<and> (0::int) \<le> 1 \<and> 1 < int (nnodes example_tree) \<and>
   get_node_feature example_tree 1 = Inr NO_FEATURE \<and> get_node_feature example_tree 0 = Inr 0"
proof -
  have h: "XGBDTree_init example_booster 0 = Inr example_tree" by code_simp
  have n: "1 < int (nnodes example_tree)" "0 < int (nnodes example_tree)" by code_simp+
  have r: "Feature (tree_to_dataframe example_tree ! nat 1) \<notin> set (feature_names (booster example_tree))"
    "Feature (tree_to_dataframe example_tree ! nat 0) \<in> set (feature_names (booster example_tree))"
    "length (feature_names (booster example_tree)) = 1"
    by code_simp+
  show ?thesis
    using h n get_node_feature_sentinel [OF h _ n(1)] get_node_feature_sentinel [OF h _ n(2)] r
    by auto
qed

subsection \<open>Classifier or regressor\<close>

text \<open>
  C5, as stated: \<open>is_classifier()\<close> returns true if the objective name begins with
  \<open>binary\<close>. This fails for the name \<open>binaryclass:logistic\<close>, which begins with
  \<open>binary\<close> and for which the result is \<open>None\<close>: the code compares the whole part
  before the first colon.
\<close>

theorem is_classifier_begins_with_counterexample:
  "prefix ''binary'' (objective_name (booster binaryclass_tree)) \<and>
   is_classifier binaryclass_tree = Inr None"
  by code_simp

text \<open>
  C5, amended: \<open>is_classifier()\<close> never fails; it returns true when the part of the
  objective name before the first colon is \<open>binary\<close> (as in \<open>binary:logistic\<close>), false
  when that part is \<open>reg\<close> (as in \<open>reg:squarederror\<close>), and \<open>None\<close>, neither true nor
  false, for every other objective name.
\<close>

theorem is_classifier_name_before_colon:
  "is_classifier self =
     Inr (if takeWhile (\<lambda>c. c \<noteq> CHR '':'') (objective_name (booster self)) = ''binary''
          then Some True
          else if takeWhile (\<lambda>c. c \<noteq> CHR '':'') (objective_name (booster self)) = ''reg''
          then Some False
          else None)"
  by (simp add: is_classifier_def split_on_first)

subsection \<open>Operations that are not supported\<close>

text \<open>
  C6: each of \<open>criterion()\<close>, \<open>get_feature_path_importance(node_list)\<close>,
  \<open>get_node_criterion()\<close>, \<open>get_max_depth()\<close>, \<open>get_score()\<close> and
  \<open>get_min_samples_leaf()\<close> raises \<open>VisualisationNotYetSupportedError\<close> for XGBoost on
  every adapter and every argument, and none of them returns a value.
\<close>

theorem unsupported_operations_raise:
  "criterion self = Inl (VisualisationNotYetSupportedError ''criterion()'' ''XGBoost'') \<and>
   get_feature_path_importance self node_list =
     Inl (VisualisationNotYetSupportedError ''get_feature_path_importance()'' ''XGBoost'') \<and>
   get_node_criterion self =
     Inl (VisualisationNotYetSupportedError ''get_node_criterion()'' ''XGBoost'') \<and>
   get_max_depth self = Inl (VisualisationNotYetSupportedError ''get_max_depth()'' ''XGBoost'') \<and>
   get_score self = Inl (VisualisationNotYetSupportedError ''get_score()'' ''XGBoost'') \<and>
   get_min_samples_leaf self =
     Inl (VisualisationNotYetSupportedError ''get_min_samples_leaf()'' ''XGBoost'') \<and>
   \<not> (\<exists>v. criterion self = Inr v \<or> get_feature_path_importance self node_list = Inr v \<or>
          get_node_criterion self = Inr v \<or> get_max_depth self = Inr v \<or>
          get_score self = Inr v \<or> get_min_samples_leaf self = Inr v)"
  by (simp add: criterion_def get_feature_path_importance_def get_node_criterion_def
      get_max_depth_def get_score_def get_min_samples_leaf_def)

subsection \<open>The child arrays after construction\<close>

text \<open>
  C9: for an adapter that the constructor has built, \<open>get_children_left()\<close> returns an
  array equal to the \<open>children_left\<close> computed at construction, and
  \<open>get_children_right()\<close> one equal to \<open>children_right\<close>. No method assigns to a field
  of the adapter, so the methods of the model take the adapter and return no new one,
  and the equality holds at every later call.
\<close>

theorem children_getters_equal_construction:
  assumes "XGBDTree_init b ti = Inr self"
  shows "get_children_left self = Inr (children_left self) \<and>
         get_children_right self = Inr (children_right self)"
  using init_fields [OF assms] by (simp add: get_children_left_def get_children_right_def)

theorem children_getters_equal_construction_witness:
  "XGBDTree_init example_booster 0 = Inr example_tree \<and>
   get_children_left example_tree = Inr [1, - 1, - 1] \<and>
   get_children_right example_tree = Inr [2, - 1, - 1]"
proof -
  have h: "XGBDTree_init example_booster 0 = Inr example_tree" by code_simp
  show ?thesis
    using h children_getters_equal_construction [OF h] by (simp add: example_tree_def)
qed

subsection \<open>The walk from a leaf to the root\<close>

lemma where_first_absent: "x \<notin> set xs \<Longrightarrow> where_first xs x = Inl IndexError"
  by (induction xs) auto

lemma where_first_present:
  "x \<in> set xs \<Longrightarrow> \<exists>p. where_first xs x = Inr p \<and> p < length xs"
  by (induction xs) auto

lemma where_first_bound: "where_first xs x = Inr p \<Longrightarrow> p < length xs"
  by (induction xs arbitrary: p) (auto split: if_splits sum.splits)

lemma walk_root: "walk left right ROOT_NODE path = Some path"
  by (subst walk.simps) simp

lemma walk_no_parent:
  assumes "node_id \<notin> set left" and "node_id \<notin> set right"
  shows "walk left right node_id path = Some path"
  using assms by (subst walk.simps) (simp add: where_first_absent)

lemma walk_left_parent:
  assumes "node_id \<noteq> ROOT_NODE" and "where_first left node_id = Inr p" and "node_id \<notin> set right"
  shows "walk left right node_id path = walk left right (int p) (path @ [int p])"
  using assms by (subst walk.simps) (simp add: where_first_absent)

lemma walk_right_parent:
  assumes "node_id \<noteq> ROOT_NODE" and "node_id \<notin> set left" and "where_first right node_id = Inr p"
  shows "walk left right node_id path = walk left right (int p) (path @ [int p])"
  using assms by (subst walk.simps) (simp add: where_first_absent)

lemma one_occurrence:
  assumes "count_list (left @ right) x = 1"
  shows "(x \<in> set left \<and> x \<notin> set right) \<or> (x \<notin> set left \<and> x \<in> set right)"
proof -
  have "count_list left x + count_list right x = 1"
    using assms by simp
  then have "(count_list left x = 1 \<and> count_list right x = 0) \<or>
             (count_list left x = 0 \<and> count_list right x = 1)"
    by arith
  then show ?thesis
    by (metis count_list_0_iff zero_neq_one)
qed

lemma walk_climbs:
  assumes uniq: "list_all (\<lambda>i. count_list (left @ right) (int i) = 1) [1..<length left]"
    and len: "length right = length left"
  shows "reaches_root left right k (int i) \<Longrightarrow> i < length left \<Longrightarrow>
         \<exists>chain. (\<forall>path. walk left right (int i) path = Some (path @ chain)) \<and>
                 count_list chain ROOT_NODE = (if i = 0 then 0 else 1)"
proof (induction k arbitrary: i)
  case 0
  then have "int i = ROOT_NODE" by simp
  then have "\<forall>path. walk left right (int i) path = Some (path @ [])"
    by (simp add: walk_root)
  moreover have "i = 0" using \<open>int i = ROOT_NODE\<close> by (simp add: ROOT_NODE_def)
  ultimately show ?case by (intro exI [of _ "[]"]) simp
next
  case (Suc k)
  show ?case
  proof (cases "i = 0")
    case True
    then have "\<forall>path. walk left right (int i) path = Some (path @ [])"
      using walk_root by (simp add: ROOT_NODE_def)
    with True show ?thesis by (intro exI [of _ "[]"]) simp
  next
    case False
    then have nr: "int i \<noteq> ROOT_NODE" by (simp add: ROOT_NODE_def)
    from False Suc.prems(2) have "i \<in> set [1..<length left]" by simp
    with uniq have "count_list (left @ right) (int i) = 1"
      by (simp add: list_all_iff)
    from one_occurrence [OF this]
    obtain p where step: "\<forall>path. walk left right (int i) path = walk left right (int p) (path @ [int p])"
      and par: "parent_of left right (int i) = Some p" and bound: "p < length left"
    proof (elim disjE conjE)
      assume l: "int i \<in> set left" and r: "int i \<notin> set right"
      from where_first_present [OF l] obtain p where p: "where_first left (int i) = Inr p" "p < length left"
        by blast
      show thesis
        by (rule that [of p]) (simp_all add: walk_left_parent [OF nr p(1) r] parent_of_def p)
    next
      assume l: "int i \<notin> set left" and r: "int i \<in> set right"
      from where_first_present [OF r] obtain p where p: "where_first right (int i) = Inr p" "p < length right"
        by blast
      show thesis
        by (rule that [of p])
          (use p len in \<open>simp_all add: walk_right_parent [OF nr l p(1)] parent_of_def where_first_absent [OF l]\<close>)
    qed
    from Suc.prems(1) nr par have "reaches_root left right k (int p)" by simp
    from Suc.IH [OF this bound] obtain chain
      where chain: "\<forall>path. walk left right (int p) path = Some (path @ chain)"
        and cnt: "count_list chain ROOT_NODE = (if p = 0 then 0 else 1)" by blast
    have "\<forall>path. walk left right (int i) path = Some (path @ (int p # chain))"
      using step chain by simp
    moreover have "count_list (int p # chain) ROOT_NODE = 1"
      using cnt by (simp add: ROOT_NODE_def)
    ultimately show ?thesis using False by (intro exI [of _ "int p # chain"]) simp
  qed
qed

lemma walk_from_node:
  assumes "well_formed_tree left right" and "i < length left"
  shows "\<exists>chain. (\<forall>path. walk left right (int i) path = Some (path @ chain)) \<and>
                 count_list chain ROOT_NODE = (if i = 0 then 0 else 1)"
proof -
  from assms have "reaches_root left right (length left) (int i)"
    by (simp add: well_formed_tree_def list_all_iff)
  moreover from assms(1)
  have "list_all (\<lambda>i. count_list (left @ right) (int i) = 1) [1..<length left]"
    and "length right = length left"
    by (simp_all add: well_formed_tree_def)
  ultimately show ?thesis using walk_climbs assms(2) by blast
qed

lemma walk_returns:
  assumes wf: "well_formed_tree left right"
  shows "\<exists>result. walk left right node_id path = Some result"
proof (cases "node_id = ROOT_NODE")
  case True
  then show ?thesis by (simp add: walk_root)
next
  case False
  have len: "length right = length left"
    using wf by (simp add: well_formed_tree_def)
  have first: "\<exists>path1. (case where_first left node_id of
        Inr parent_node \<Rightarrow> walk left right (int parent_node) (path @ [int parent_node])
      | Inl e \<Rightarrow> Some path) = Some path1"
  proof (cases "where_first left node_id")
    case (Inl e)
    then show ?thesis by simp
  next
    case (Inr p)
    with walk_from_node [OF wf where_first_bound [OF Inr]] show ?thesis by auto
  qed
  then obtain path1 where path1: "(case where_first left node_id of
        Inr parent_node \<Rightarrow> walk left right (int parent_node) (path @ [int parent_node])
      | Inl e \<Rightarrow> Some path) = Some path1" by blast
  have second: "\<exists>path2. (case where_first right node_id of
        Inr parent_node \<Rightarrow> walk left right (int parent_node) (path1 @ [int parent_node])
      | Inl e \<Rightarrow> Some path1) = Some path2"
  proof (cases "where_first right node_id")
    case (Inl e)
    then show ?thesis by simp
  next
    case (Inr p)
    from where_first_bound [OF Inr] len have "p < length left" by simp
    with walk_from_node [OF wf this] Inr show ?thesis by auto
  qed
  show ?thesis
    using False path1 second by (subst walk.simps) simp
qed

text \<open>
  Arrays in which every node but the root occurs exactly once and whose parent relation
  (the pairs of a position and an entry at that position) has no cycle are well-formed
  in the sense of \<open>well_formed_tree\<close>: the number of proper ancestors of a node bounds
  the length of its climb.
\<close>

lemma where_first_nth: "where_first xs x = Inr p \<Longrightarrow> xs ! p = x"
  by (induction xs arbitrary: p) (auto split: if_splits sum.splits)

lemma reaches_root_root: "reaches_root left right k ROOT_NODE"
  by (cases k) simp_all

lemma reaches_root_Suc: "reaches_root left right k i \<Longrightarrow> reaches_root left right (Suc k) i"
proof (induction k arbitrary: i)
  case 0
  then show ?case by simp
next
  case (Suc k)
  show ?case
  proof (cases "i = ROOT_NODE")
    case True
    then show ?thesis by simp
  next
    case False
    with Suc.prems obtain p where p: "parent_of left right i = Some p"
      "reaches_root left right k (int p)"
      by (auto split: option.splits)
    from Suc.IH [OF p(2)] have "reaches_root left right (Suc k) (int p)" .
    with p(1) show ?thesis
      by (subst reaches_root.simps(2)) (simp del: reaches_root.simps)
  qed
qed

lemma reaches_root_mono:
  assumes "reaches_root left right k i" and "k \<le> m"
  shows "reaches_root left right m i"
  using assms(2,1)
proof (induction rule: dec_induct)
  case base
  then show ?case .
next
  case (step n)
  then show ?case by (intro reaches_root_Suc) simp
qed

lemma parent_of_edge:
  assumes "count_list (left @ right) x = 1" and "length right = length left"
  shows "\<exists>p. parent_of left right x = Some p \<and> p < length left \<and> (left ! p = x \<or> right ! p = x)"
proof -
  from one_occurrence [OF assms(1)] show ?thesis
  proof (elim disjE conjE)
    assume l: "x \<in> set left"
    from where_first_present [OF l] obtain p where p: "where_first left x = Inr p" "p < length left"
      by blast
    with where_first_nth [OF p(1)] show ?thesis by (simp add: parent_of_def)
  next
    assume l: "x \<notin> set left" and r: "x \<in> set right"
    from where_first_present [OF r] obtain p where p: "where_first right x = Inr p" "p < length right"
      by blast
    with where_first_nth [OF p(1)] where_first_absent [OF l] assms(2) show ?thesis
      by (simp add: parent_of_def)
  qed
qed

lemma acyclic_tree_well_formed:
  fixes left right :: "int list"
  defines "E \<equiv> {(int p, c) | p c. p < length left \<and> (left ! p = c \<or> right ! p = c)}"
  assumes ne: "left \<noteq> []" and len: "length right = length left"
    and uniq: "\<forall>i \<in> {1..<length left}. count_list (left @ right) (int i) = 1"
    and acyc: "acyclic E"
  shows "well_formed_tree left right"
proof -
  let ?n = "length left"
  define A where "A i = {j. j < ?n \<and> (int j, int i) \<in> E\<^sup>+}" for i
  have "E \<subseteq> (\<lambda>p. (int p, left ! p)) ` {..<?n} \<union> (\<lambda>p. (int p, right ! p)) ` {..<?n}"
    by (auto simp: E_def)
  then have "finite E" by (rule finite_subset) simp
  then have wf: "wf E" using acyc by (rule finite_acyclic_wf)
  have fin: "finite (A i)" for i by (simp add: A_def)
  have bound: "card (A i) \<le> ?n" for i
  proof -
    have "A i \<subseteq> {..<?n}" by (auto simp: A_def)
    then have "card (A i) \<le> card {..<?n}" by (intro card_mono) simp_all
    then show ?thesis by simp
  qed
  have climb: "\<forall>i<?n. x = int i \<longrightarrow> reaches_root left right (card (A i)) (int i)" for x
    using wf
  proof (induction x rule: wf_induct_rule)
    case (less x)
    show ?case
    proof (intro allI impI)
      fix i assume i: "i < ?n" and x: "x = int i"
      show "reaches_root left right (card (A i)) (int i)"
      proof (cases "i = 0")
        case True
        then show ?thesis using reaches_root_root by (simp add: ROOT_NODE_def)
      next
        case False
        with i uniq have "count_list (left @ right) (int i) = 1" by simp
        from parent_of_edge [OF this len] obtain p
          where p: "parent_of left right (int i) = Some p" "p < ?n"
            "left ! p = int i \<or> right ! p = int i" by blast
        then have edge: "(int p, int i) \<in> E" by (auto simp: E_def)
        from less.IH [of "int p"] edge x p(2)
        have ih: "reaches_root left right (card (A p)) (int p)" by simp
        have "p \<notin> A p"
          using acyc by (auto simp: A_def acyclic_def)
        moreover have "insert p (A p) \<subseteq> A i"
          using edge p(2) by (auto simp: A_def intro: trancl_into_trancl)
        ultimately have "card (A p) < card (A i)"
          using fin by (metis card_insert_disjoint card_mono less_eq_Suc_le)
        then obtain m where m: "card (A i) = Suc m" "card (A p) \<le> m"
          by (cases "card (A i)") auto
        from reaches_root_mono [OF ih m(2)] p(1) show ?thesis
          by (simp add: m(1))
      qed
    qed
  qed
  have "reaches_root left right ?n (int i)" if "i < ?n" for i
    using climb [of "int i"] that bound [of i] reaches_root_mono by blast
  then show ?thesis
    using ne len uniq by (simp add: well_formed_tree_def list_all_iff)
qed

text \<open>
  C10: when the child arrays form a well-formed tree rooted at node 0, the walk of
  \<open>_get_leaf_prediction_path\<close> returns for every starting id, whether a node of the
  tree or not. From the root it returns the path \<open>[0]\<close> whatever the arrays are, also
  for arrays that form no tree: the guard \<open>node_id != ROOT_NODE\<close> skips both searches.
\<close>

theorem walk_terminates_on_trees:
  "(well_formed_tree (children_left self) (children_right self) \<longrightarrow>
      (\<exists>prediction_path. get_leaf_prediction_path self leaf = Some prediction_path)) \<and>
   get_leaf_prediction_path any_self ROOT_NODE = Some [ROOT_NODE]"
  using walk_returns [of "children_left self" "children_right self" leaf "[leaf]"]
  by (simp add: get_leaf_prediction_path_def walk_root)

theorem walk_terminates_on_trees_witness:
  "well_formed_tree (children_left example_tree) (children_right example_tree) \<and>
   get_leaf_prediction_path example_tree 2 = Some [2, 0] \<and>
   get_leaf_prediction_path example_tree ROOT_NODE = Some [ROOT_NODE]"
proof -
  have wf: "well_formed_tree (children_left example_tree) (children_right example_tree)"
    by code_simp
  have p: "get_leaf_prediction_path example_tree 2 = Some [2, 0]" by code_simp
  show ?thesis
    using wf p walk_terminates_on_trees [of example_tree 2 example_tree] by simp
qed

subsection \<open>Routing the samples to the nodes\<close>

lemma dd_get_update:
  "dd_get (d(n \<mapsto> xs)) k = (if k = n then xs else dd_get d k)"
  by (simp add: dd_get_def)

lemma dd_get_append_sample:
  "dd_get (append_sample d s path) k = dd_get d k @ replicate (count_list path k) s"
  by (induction path arbitrary: d) (auto simp: dd_get_update replicate_append_same)

lemma route_samples_result:
  assumes "\<forall>(s, l) \<in> set samples. \<exists>path. get_leaf_prediction_path self l = Some path \<and>
             0 < count_list path l \<and> count_list path ROOT_NODE = 1"
  shows "\<exists>d'. route_samples self samples d = Some d' \<and>
           dd_get d' ROOT_NODE = dd_get d ROOT_NODE @ map fst samples \<and>
           (\<forall>k. set (dd_get d k) \<subseteq> set (dd_get d' k)) \<and>
           (\<forall>(s, l) \<in> set samples. s \<in> set (dd_get d' l))"
  using assms
proof (induction samples arbitrary: d)
  case Nil
  then show ?case by simp
next
  case (Cons sl samples)
  obtain s l where sl: "sl = (s, l)" by (cases sl)
  from Cons.prems sl obtain path where path: "get_leaf_prediction_path self l = Some path"
    "0 < count_list path l" "count_list path ROOT_NODE = 1" by auto
  let ?d1 = "append_sample d s path"
  from Cons.prems have "\<forall>(s, l) \<in> set samples. \<exists>path. get_leaf_prediction_path self l = Some path \<and>
             0 < count_list path l \<and> count_list path ROOT_NODE = 1" by simp
  from Cons.IH [OF this, of ?d1] obtain d' where d': "route_samples self samples ?d1 = Some d'"
    "dd_get d' ROOT_NODE = dd_get ?d1 ROOT_NODE @ map fst samples"
    "\<forall>k. set (dd_get ?d1 k) \<subseteq> set (dd_get d' k)"
    "\<forall>(s, l) \<in> set samples. s \<in> set (dd_get d' l)" by blast
  have run: "route_samples self (sl # samples) d = Some d'"
    using sl path(1) d'(1) by simp
  have root: "dd_get d' ROOT_NODE = dd_get d ROOT_NODE @ map fst (sl # samples)"
    using d'(2) path(3) sl by (simp add: dd_get_append_sample)
  have mono: "\<forall>k. set (dd_get d k) \<subseteq> set (dd_get d' k)"
    using d'(3) by (auto simp: dd_get_append_sample)
  have "s \<in> set (dd_get ?d1 l)"
    using path(2) by (simp add: dd_get_append_sample)
  with d'(3) have "s \<in> set (dd_get d' l)" by blast
  with d'(4) sl have own: "\<forall>(s, l) \<in> set (sl # samples). s \<in> set (dd_get d' l)" by simp
  from run root mono own show ?case by blast
qed

lemma prediction_path_of_node:
  assumes wf: "well_formed_tree (children_left self) (children_right self)"
    and "0 \<le> l" and "l < int (length (children_left self))"
  shows "\<exists>path. get_leaf_prediction_path self l = Some path \<and>
           0 < count_list path l \<and> count_list path ROOT_NODE = 1"
proof -
  from assms(2,3) have l: "l = int (nat l)" "nat l < length (children_left self)" by simp_all
  from walk_from_node [OF wf l(2)] l(1) obtain chain
    where chain: "\<forall>path. walk (children_left self) (children_right self) l path = Some (path @ chain)"
      and cnt: "count_list chain ROOT_NODE = (if nat l = 0 then 0 else 1)" by auto
  have "get_leaf_prediction_path self l = Some (l # chain)"
    using chain by (simp add: get_leaf_prediction_path_def)
  moreover have "count_list (l # chain) ROOT_NODE = 1"
    using cnt assms(2) by (auto simp: ROOT_NODE_def)
  ultimately show ?thesis by simp
qed

text \<open>
  C1: when the child arrays form a well-formed tree rooted at node 0 and every
  predicted leaf id is a node id of that tree, \<open>get_node_samples()\<close> returns a mapping
  in which every sample is listed under its own leaf id, and in which the list of the
  root is the list of all sample indices \<open>0, ..., N - 1\<close>, each once.
\<close>

theorem node_samples_exhaustive:
  assumes wf: "well_formed_tree (children_left self) (children_right self)"
    and leaves: "prediction_leaves self = Inr leaves"
    and valid: "\<forall>l \<in> set leaves. 0 \<le> l \<and> l < int (length (children_left self))"
  shows "\<exists>d. get_node_samples self = Some (Inr d) \<and>
           (\<forall>sample_i < length leaves. sample_i \<in> set (dd_get d (leaves ! sample_i))) \<and>
           dd_get d ROOT_NODE = [0..<length leaves]"
proof -
  let ?samples = "enumerate 0 leaves"
  have "\<forall>(s, l) \<in> set ?samples. \<exists>path. get_leaf_prediction_path self l = Some path \<and>
             0 < count_list path l \<and> count_list path ROOT_NODE = 1"
    using valid prediction_path_of_node [OF wf] by (auto simp: in_set_enumerate_eq)
  from route_samples_result [OF this, of Map.empty] obtain d
    where d: "route_samples self ?samples Map.empty = Some d"
      "dd_get d ROOT_NODE = dd_get Map.empty ROOT_NODE @ map fst ?samples"
      "\<forall>(s, l) \<in> set ?samples. s \<in> set (dd_get d l)" by blast
  have "get_node_samples self = Some (Inr d)"
    using leaves d(1) by (simp add: get_node_samples_def)
  moreover have "dd_get d ROOT_NODE = [0..<length leaves]"
    using d(2) by (simp add: dd_get_def)
  moreover have "\<forall>sample_i < length leaves. sample_i \<in> set (dd_get d (leaves ! sample_i))"
    using d(3) by (auto simp: in_set_enumerate_eq)
  ultimately show ?thesis by blast
qed

theorem node_samples_exhaustive_witness:
  "well_formed_tree (children_left example_tree) (children_right example_tree) \<and>
   prediction_leaves example_tree = Inr [1, 2, 1] \<and>
   list_all (\<lambda>l. 0 \<le> l \<and> l < int (length (children_left example_tree))) [1, 2, 1] \<and>
   (\<exists>d. get_node_samples example_tree = Some (Inr d) \<and>
        dd_get d ROOT_NODE = [0, 1, 2] \<and> 0 \<in> set (dd_get d 1) \<and> 1 \<in> set (dd_get d 2) \<and>
        2 \<in> set (dd_get d 1))"
proof -
  have wf: "well_formed_tree (children_left example_tree) (children_right example_tree)"
    by code_simp
  have leaves: "prediction_leaves example_tree = Inr [1, 2, 1]" by code_simp
  have valid: "\<forall>l \<in> set [1, 2, 1]. 0 \<le> l \<and> l < int (length (children_left example_tree))"
    by code_simp
  from node_samples_exhaustive [OF wf leaves valid] obtain d
    where d: "get_node_samples example_tree = Some (Inr d)"
      "\<forall>sample_i < length [1, 2, 1 :: int]. sample_i \<in> set (dd_get d ([1, 2, 1] ! sample_i))"
      "dd_get d ROOT_NODE = [0..<length [1, 2, 1 :: int]]" by blast
  have "0 \<in> set (dd_get d 1)" "1 \<in> set (dd_get d 2)" "2 \<in> set (dd_get d 1)"
    using d(2) [rule_format, of 0] d(2) [rule_format, of 1] d(2) [rule_format, of 2] by simp_all
  moreover have "dd_get d ROOT_NODE = [0, 1, 2]"
    using d(3) by (simp add: upt_rec)
  moreover have "list_all (\<lambda>l. 0 \<le> l \<and> l < int (length (children_left example_tree))) [1, 2, 1]"
    using valid by (simp add: list_all_iff)
  ultimately show ?thesis using wf leaves d(1) by blast
qed

subsection \<open>Decoding the child references\<close>

text \<open>The decimal digits of a number read back as that number.\<close>

lemma is_digit_digit_char: "d < 10 \<Longrightarrow> is_digit (digit_char d)"
  by (simp add: is_digit_def digit_char_def)

lemma digit_val_digit_char: "d < 10 \<Longrightarrow> digit_val (digit_char d) = d"
  by (simp add: digit_val_def digit_char_def)

lemma str_nat_digits: "c \<in> set (str_nat n) \<Longrightarrow> is_digit c"
proof (induction n arbitrary: c rule: str_nat.induct)
  case (1 n)
  show ?case
  proof (cases "n < 10")
    case True
    with "1.prems" show ?thesis
      by (simp add: str_nat.simps [of n] is_digit_digit_char)
  next
    case False
    with "1.prems" "1.IH" show ?thesis
      by (auto simp: str_nat.simps [of n] is_digit_digit_char)
  qed
qed

lemma str_nat_not_empty: "str_nat n \<noteq> []"
  by (simp add: str_nat.simps [of n])

lemma parse_digits_all_digits:
  assumes "\<forall>c \<in> set ds. is_digit c" and "ds \<noteq> [] \<or> after_digit"
  shows "parse_digits acc after_digit ds = Some (foldl (\<lambda>a c. 10 * a + digit_val c) acc ds)"
  using assms by (induction ds arbitrary: acc after_digit) auto

lemma foldl_str_nat: "foldl (\<lambda>a c. 10 * a + digit_val c) 0 (str_nat n) = n"
proof (induction n rule: str_nat.induct)
  case (1 n)
  show ?case
  proof (cases "n < 10")
    case True
    then show ?thesis by (simp add: str_nat.simps [of n] digit_val_digit_char)
  next
    case False
    with "1.IH" show ?thesis
      by (simp add: str_nat.simps [of n] digit_val_digit_char)
  qed
qed

lemma parse_digits_str_nat: "parse_digits 0 False (str_nat n) = Some n"
  using parse_digits_all_digits [of "str_nat n" False 0] str_nat_digits str_nat_not_empty
  by (simp add: foldl_str_nat)

lemma digit_not_space: "is_digit c \<Longrightarrow> \<not> is_space c"
  by (simp add: is_digit_def is_space_def Let_def)

lemma digit_not_sign: "is_digit c \<Longrightarrow> c \<noteq> CHR ''+'' \<and> c \<noteq> CHR ''-''"
  by (auto simp: is_digit_def)

lemma dropWhile_none: "\<forall>c \<in> set s. \<not> P c \<Longrightarrow> dropWhile P s = s"
  by (cases s) auto

lemma strip_no_space: "\<forall>c \<in> set s. \<not> is_space c \<Longrightarrow> strip s = s"
proof -
  assume a: "\<forall>c \<in> set s. \<not> is_space c"
  then have b: "\<forall>c \<in> set (rev s). \<not> is_space c" by simp
  show ?thesis
    by (simp add: strip_def dropWhile_none [OF a] dropWhile_none [OF b])
qed

lemma int_of_str_str_nat: "int_of_str (str_nat n) = Inr (int n)"
proof -
  obtain c cs where ccs: "str_nat n = c # cs"
    using str_nat_not_empty [of n] by (cases "str_nat n") auto
  have "strip (str_nat n) = str_nat n"
    using str_nat_digits digit_not_space by (intro strip_no_space) blast
  then have s: "strip (c # cs) = c # cs" by (simp add: ccs)
  have "is_digit c" using str_nat_digits [of c n] ccs by simp
  then have sign: "c \<noteq> CHR ''+''" "c \<noteq> CHR ''-''" using digit_not_sign by blast+
  have p: "parse_digits 0 False (c # cs) = Some n"
    using parse_digits_str_nat [of n] ccs by simp
  have "int_of_str (c # cs) = Inr (int n)"
    unfolding int_of_str_def s using sign p by (simp del: parse_digits.simps)
  then show ?thesis by (simp add: ccs)
qed

lemma split_on_no_sep: "sep \<notin> set s \<Longrightarrow> split_on sep s = [s]"
  by (induction s) auto

lemma split_on_sep: "sep \<notin> set a \<Longrightarrow> split_on sep (a @ sep # b) = a # split_on sep b"
  by (induction a) auto

lemma split_value_compound_ref:
  "split_value (StrCell (compound_ref t n)) = Inr (StrCell (str_nat n))"
proof -
  have "CHR ''-'' \<notin> set (str_nat t)" "CHR ''-'' \<notin> set (str_nat n)"
    using str_nat_digits digit_not_sign by blast+
  then have "split_on CHR ''-'' (compound_ref t n) = [str_nat t, str_nat n]"
    by (simp add: compound_ref_def split_on_sep split_on_no_sep)
  then show ?thesis by (simp add: split_value_def item_at_def)
qed

lemma cell_to_int_str_nat: "int n < 2 ^ 63 \<Longrightarrow> cell_to_int (StrCell (str_nat n)) = Inr (int n)"
  by (simp add: cell_to_int_def int_of_str_str_nat in_int64_def)

text \<open>The three passes of \<open>_calculate_children\<close> over a column whose references resolve.\<close>

lemma map_raise_all: "\<forall>x \<in> set xs. f x = Inr (g x) \<Longrightarrow> map_raise f xs = Inr (map g xs)"
  by (induction xs) auto

lemma map_raise_map: "map_raise f (map k xs) = map_raise (\<lambda>x. f (k x)) xs"
  by (induction xs) (auto split: sum.splits)

lemma calculate_children_rows:
  assumes "\<forall>r \<in> set df. \<exists>c. split_value (row_get r column_name) = Inr c \<and>
             cell_to_int (case c of Missing \<Rightarrow> IntCell NO_CHILDREN | StrCell s \<Rightarrow> StrCell s
                          | IntCell k \<Rightarrow> IntCell k) = Inr (g r)"
  shows "calculate_children df column_name = Inr (map g df)"
proof -
  define h where "h r = projr (split_value (row_get r column_name))" for r
  have h: "\<forall>r \<in> set df. split_value (row_get r column_name) = Inr (h r)"
    using assms by (auto simp: h_def)
  then have split: "split_column_value df column_name = Inr (map h df)"
    by (simp add: split_column_value_def map_raise_all)
  have "\<forall>r \<in> set df. cell_to_int (case h r of Missing \<Rightarrow> IntCell NO_CHILDREN | StrCell s \<Rightarrow> StrCell s
                          | IntCell k \<Rightarrow> IntCell k) = Inr (g r)"
    using assms h by fastforce
  then have "map_raise cell_to_int (change_no_children_value (map h df)) = Inr (map g df)"
    by (simp add: change_no_children_value_def map_raise_map map_raise_all)
  with split show ?thesis by (simp add: calculate_children_def)
qed

lemma node_table_row:
  assumes "node_table t df" and "j < length df"
  shows "ID (df ! j) = compound_ref t j" and "Node (df ! j) = j" and "int j < 2 ^ 63"
  using assms by (auto simp: node_table_def list_all_iff)

lemma decode_missing:
  "split_value Missing = Inr Missing \<and>
   cell_to_int (case Missing of Missing \<Rightarrow> IntCell NO_CHILDREN | StrCell s \<Rightarrow> StrCell s
                | IntCell k \<Rightarrow> IntCell k) = Inr NO_CHILDREN"
  by (simp add: split_value_def cell_to_int_def in_int64_def NO_CHILDREN_def)

lemma decode_reference:
  assumes "node_table t df" and "j < length df" and "refers_to df c j"
  shows "\<exists>c'. split_value c = Inr c' \<and>
           cell_to_int (case c' of Missing \<Rightarrow> IntCell NO_CHILDREN | StrCell s \<Rightarrow> StrCell s
                        | IntCell k \<Rightarrow> IntCell k) = Inr (int j)"
proof -
  note row = node_table_row [OF assms(1,2)]
  from assms(3) consider "c = StrCell (compound_ref t j)" | "c = IntCell (int j)"
    by (auto simp: refers_to_def row)
  then show ?thesis
  proof cases
    case 1
    then show ?thesis
      using row(3) by (simp add: split_value_compound_ref cell_to_int_str_nat)
  next
    case 2
    then show ?thesis
      using row(3) by (simp add: split_value_def cell_to_int_def in_int64_def)
  qed
qed

lemma resolve_row:
  assumes "child_refs_resolve df column_name" and "r \<in> set df"
  shows "row_get r column_name = Missing \<or>
         (\<exists>j<length df. refers_to df (row_get r column_name) j)"
  using assms by (auto simp: child_refs_resolve_def list_all_iff list_ex_iff)

lemma calculate_children_resolved:
  assumes nt: "node_table t df" and res: "child_refs_resolve df column_name"
  obtains g where "calculate_children df column_name = Inr (map g df)"
    and "\<And>r. r \<in> set df \<Longrightarrow> row_get r column_name = Missing \<Longrightarrow> g r = NO_CHILDREN"
    and "\<And>r j. r \<in> set df \<Longrightarrow> j < length df \<Longrightarrow> refers_to df (row_get r column_name) j \<Longrightarrow> g r = int j"
proof -
  define g where "g r = projr (cell_to_int
      (case projr (split_value (row_get r column_name)) of
         Missing \<Rightarrow> IntCell NO_CHILDREN | StrCell s \<Rightarrow> StrCell s | IntCell k \<Rightarrow> IntCell k))" for r
  have miss: "g r = NO_CHILDREN" if "row_get r column_name = Missing" for r
    using that decode_missing by (simp add: g_def)
  have ref: "g r = int j" if "j < length df" "refers_to df (row_get r column_name) j" for r j
    using decode_reference [OF nt that] by (auto simp: g_def)
  have "\<forall>r \<in> set df. \<exists>c. split_value (row_get r column_name) = Inr c \<and>
             cell_to_int (case c of Missing \<Rightarrow> IntCell NO_CHILDREN | StrCell s \<Rightarrow> StrCell s
                          | IntCell k \<Rightarrow> IntCell k) = Inr (g r)"
  proof
    fix r assume r: "r \<in> set df"
    from resolve_row [OF res r] show "\<exists>c. split_value (row_get r column_name) = Inr c \<and>
             cell_to_int (case c of Missing \<Rightarrow> IntCell NO_CHILDREN | StrCell s \<Rightarrow> StrCell s
                          | IntCell k \<Rightarrow> IntCell k) = Inr (g r)"
    proof
      assume m: "row_get r column_name = Missing"
      then show ?thesis using decode_missing miss [OF m] by simp
    next
      assume "\<exists>j<length df. refers_to df (row_get r column_name) j"
      then obtain j where j: "j < length df" "refers_to df (row_get r column_name) j" by blast
      from decode_reference [OF nt j] ref [OF j] show ?thesis by simp
    qed
  qed
  from calculate_children_rows [OF this] miss ref show thesis
    by (intro that [of g]) auto
qed

text \<open>
  C4: in the table of one tree whose child references resolve (every cell of the child
  column is missing or names a row of the table), \<open>_calculate_children\<close> raises nothing and
  returns one entry per row: the sentinel \<open>-1\<close> for a row with no child, and otherwise
  the index of the row that the cell names, which lies in \<open>[0, nnodes)\<close>. A compound
  reference of tree index and node index \<open>n\<close> decodes to \<open>n\<close> (so \<open>0-5\<close> to 5), and
  \<open>split_value\<close> returns a value that is no string unchanged.
\<close>

theorem child_links_decoded:
  assumes "node_table t df" and "child_refs_resolve df column_name"
    and "column_name = LEFT_CHILDREN_COLUMN \<or> column_name = RIGHT_CHILDREN_COLUMN"
  shows "(\<exists>children. calculate_children df column_name = Inr children \<and>
            length children = length df \<and>
            (\<forall>i<length df.
               (row_get (df ! i) column_name = Missing \<and> children ! i = NO_CHILDREN) \<or>
               (row_get (df ! i) column_name \<noteq> Missing \<and>
                0 \<le> children ! i \<and> children ! i < int (length df) \<and>
                refers_to df (row_get (df ! i) column_name) (nat (children ! i))))) \<and>
         (int n < 2 ^ 63 \<longrightarrow>
            (\<exists>c. split_value (StrCell (compound_ref t' n)) = Inr c \<and> cell_to_int c = Inr (int n))) \<and>
         split_value (IntCell k) = Inr (IntCell k) \<and>
         split_value Missing = Inr Missing"
proof -
  from calculate_children_resolved [OF assms(1,2)] obtain g
    where g: "calculate_children df column_name = Inr (map g df)"
      and miss: "\<And>r. r \<in> set df \<Longrightarrow> row_get r column_name = Missing \<Longrightarrow> g r = NO_CHILDREN"
      and ref: "\<And>r j. r \<in> set df \<Longrightarrow> j < length df \<Longrightarrow> refers_to df (row_get r column_name) j \<Longrightarrow> g r = int j"
    by blast
  have rows: "(row_get (df ! i) column_name = Missing \<and> map g df ! i = NO_CHILDREN) \<or>
               (row_get (df ! i) column_name \<noteq> Missing \<and>
                0 \<le> map g df ! i \<and> map g df ! i < int (length df) \<and>
                refers_to df (row_get (df ! i) column_name) (nat (map g df ! i)))"
    if i: "i < length df" for i
  proof -
    from i have r: "df ! i \<in> set df" by simp
    from resolve_row [OF assms(2) r] show ?thesis
    proof
      assume "row_get (df ! i) column_name = Missing"
      then show ?thesis using miss [OF r] i by simp
    next
      assume "\<exists>j<length df. refers_to df (row_get (df ! i) column_name) j"
      then obtain j where j: "j < length df" "refers_to df (row_get (df ! i) column_name) j" by blast
      then have "row_get (df ! i) column_name \<noteq> Missing" by (auto simp: refers_to_def)
      with ref [OF r j] j i show ?thesis by simp
    qed
  qed
  have "\<exists>children. calculate_children df column_name = Inr children \<and>
            length children = length df \<and>
            (\<forall>i<length df.
               (row_get (df ! i) column_name = Missing \<and> children ! i = NO_CHILDREN) \<or>
               (row_get (df ! i) column_name \<noteq> Missing \<and>
                0 \<le> children ! i \<and> children ! i < int (length df) \<and>
                refers_to df (row_get (df ! i) column_name) (nat (children ! i))))"
    using g rows by (intro exI [of _ "map g df"]) simp
  moreover have "int n < 2 ^ 63 \<longrightarrow>
            (\<exists>c. split_value (StrCell (compound_ref t' n)) = Inr c \<and> cell_to_int c = Inr (int n))"
    by (simp add: split_value_compound_ref cell_to_int_str_nat)
  moreover have "split_value (IntCell k) = Inr (IntCell k)" "split_value Missing = Inr Missing"
    by (simp_all add: split_value_def)
  ultimately show ?thesis by blast
qed

theorem child_links_decoded_witness:
  "node_table 0 (tree_to_dataframe example_tree) \<and>
   child_refs_resolve (tree_to_dataframe example_tree) LEFT_CHILDREN_COLUMN \<and>
   calculate_children (tree_to_dataframe example_tree) LEFT_CHILDREN_COLUMN = Inr [1, - 1, - 1] \<and>
   int 5 < 2 ^ 63 \<and>
   (\<exists>c. split_value (StrCell ''0-5'') = Inr c \<and> cell_to_int c = Inr 5)"
proof -
  have nt: "node_table 0 (tree_to_dataframe example_tree)" by code_simp
  have res: "child_refs_resolve (tree_to_dataframe example_tree) LEFT_CHILDREN_COLUMN" by code_simp
  have ev: "calculate_children (tree_to_dataframe example_tree) LEFT_CHILDREN_COLUMN = Inr [1, - 1, - 1]"
    by code_simp
  have five: "int 5 < 2 ^ 63" by simp
  have name: "compound_ref 0 5 = ''0-5''" by code_simp
  have col: "LEFT_CHILDREN_COLUMN = LEFT_CHILDREN_COLUMN \<or>
      LEFT_CHILDREN_COLUMN = RIGHT_CHILDREN_COLUMN" by simp
  from child_links_decoded [OF nt res col, of 5 0] five name
  have "\<exists>c. split_value (StrCell ''0-5'') = Inr c \<and> cell_to_int c = Inr 5" by simp
  with nt res ev five show ?thesis by blast
qed

subsection \<open>The shape of the child arrays\<close>

lemma count_list_map: "count_list (map g xs) v = length (filter (\<lambda>x. g x = v) xs)"
  by (induction xs) auto

lemma count_children_references:
  assumes nt: "node_table t df" and res: "child_refs_resolve df column_name"
    and g: "calculate_children df column_name = Inr children" and j: "j < length df"
  shows "count_list children (int j) =
         length (filter (\<lambda>c. refers_to df c j) (map (\<lambda>r. row_get r column_name) df))"
proof -
  from calculate_children_resolved [OF nt res] obtain g
    where eq: "calculate_children df column_name = Inr (map g df)"
      and miss: "\<And>r. r \<in> set df \<Longrightarrow> row_get r column_name = Missing \<Longrightarrow> g r = NO_CHILDREN"
      and ref: "\<And>r j. r \<in> set df \<Longrightarrow> j < length df \<Longrightarrow> refers_to df (row_get r column_name) j \<Longrightarrow> g r = int j"
    by blast
  have same: "(g r = int j) = refers_to df (row_get r column_name) j" if r: "r \<in> set df" for r
  proof
    assume v: "g r = int j"
    from resolve_row [OF res r] show "refers_to df (row_get r column_name) j"
    proof
      assume "row_get r column_name = Missing"
      from miss [OF r this] v show ?thesis by (simp add: NO_CHILDREN_def)
    next
      assume "\<exists>j'<length df. refers_to df (row_get r column_name) j'"
      then obtain j' where j': "j' < length df" "refers_to df (row_get r column_name) j'" by blast
      from ref [OF r j'] v have "j' = j" by simp
      with j'(2) show ?thesis by simp
    qed
  next
    assume "refers_to df (row_get r column_name) j"
    from ref [OF r j this] show "g r = int j" .
  qed
  have "children = map g df" using g eq by simp
  then have "count_list children (int j) = length (filter (\<lambda>r. g r = int j) df)"
    by (simp add: count_list_map)
  also have "filter (\<lambda>r. g r = int j) df = filter (\<lambda>r. refers_to df (row_get r column_name) j) df"
    using same by (intro filter_cong) auto
  also have "length \<dots> = length (filter (\<lambda>c. refers_to df c j) (map (\<lambda>r. row_get r column_name) df))"
    by (simp add: filter_map comp_def)
  finally show ?thesis .
qed

lemma child_columns:
  "map (\<lambda>r. row_get r LEFT_CHILDREN_COLUMN) df = map Yes df"
  "map (\<lambda>r. row_get r RIGHT_CHILDREN_COLUMN) df = map No df"
  by (simp_all add: row_get_def LEFT_CHILDREN_COLUMN_def RIGHT_CHILDREN_COLUMN_def)

lemma tree_shaped_parts:
  assumes "tree_shaped_table df"
  shows "child_refs_resolve df LEFT_CHILDREN_COLUMN"
    and "child_refs_resolve df RIGHT_CHILDREN_COLUMN"
    and "j < length df \<Longrightarrow>
      length (filter (\<lambda>c. refers_to df c j) (child_cells df)) = (if j = 0 then 0 else 1)"
proof -
  from assms have all: "child_refs_resolve df LEFT_CHILDREN_COLUMN \<and>
     child_refs_resolve df RIGHT_CHILDREN_COLUMN \<and>
     list_all (\<lambda>j. length (filter (\<lambda>c. refers_to df c j) (child_cells df)) = (if j = 0 then 0 else 1))
       [0..<length df]"
    unfolding tree_shaped_table_def .
  then show "child_refs_resolve df LEFT_CHILDREN_COLUMN"
    and "child_refs_resolve df RIGHT_CHILDREN_COLUMN" by blast+
  from all have "\<forall>j \<in> set [0..<length df].
      length (filter (\<lambda>c. refers_to df c j) (child_cells df)) = (if j = 0 then 0 else 1)"
    unfolding list_all_iff by blast
  then show "j < length df \<Longrightarrow>
      length (filter (\<lambda>c. refers_to df c j) (child_cells df)) = (if j = 0 then 0 else 1)"
    by simp
qed

lemma calculate_children_total:
  assumes "node_table t df" and "child_refs_resolve df column_name"
  shows "\<exists>g. calculate_children df column_name = Inr (map g df)"
proof -
  from calculate_children_resolved [OF assms] obtain g
    where "calculate_children df column_name = Inr (map g df)"
      and "\<And>r. r \<in> set df \<Longrightarrow> row_get r column_name = Missing \<Longrightarrow> g r = NO_CHILDREN"
      and "\<And>r j. r \<in> set df \<Longrightarrow> j < length df \<Longrightarrow> refers_to df (row_get r column_name) j \<Longrightarrow> g r = int j"
    by blast
  then show ?thesis by (intro exI [of _ g])
qed

text \<open>
  C8: for the table of one tree that has the shape of a tree (rows numbered from the
  root 0, no child cell naming the root, every other row named by exactly one child
  cell), the constructor raises nothing, both child arrays have length \<open>nnodes\<close>, and
  every valid node id is exactly one of: the root, an entry of \<open>children_left\<close>, an
  entry of \<open>children_right\<close>; every id but the root occurs exactly once in the two
  arrays together.
\<close>

theorem child_arrays_form_tree:
  assumes "node_table t (get_tree_dataframe b ti)"
    and "tree_shaped_table (get_tree_dataframe b ti)"
  shows "\<exists>self. XGBDTree_init b ti = Inr self \<and>
           length (children_left self) = nnodes self \<and>
           length (children_right self) = nnodes self \<and>
           (\<forall>i<nnodes self.
              (i = 0 \<and> int i \<notin> set (children_left self) \<and> int i \<notin> set (children_right self)) \<or>
              (i \<noteq> 0 \<and> int i \<in> set (children_left self) \<and> int i \<notin> set (children_right self)) \<or>
              (i \<noteq> 0 \<and> int i \<notin> set (children_left self) \<and> int i \<in> set (children_right self))) \<and>
           (\<forall>i<nnodes self. i \<noteq> 0 \<longrightarrow>
              count_list (children_left self @ children_right self) (int i) = 1)"
proof -
  let ?df = "get_tree_dataframe b ti"
  note resl = tree_shaped_parts(1) [OF assms(2)]
  note resr = tree_shaped_parts(2) [OF assms(2)]
  note once = tree_shaped_parts(3) [OF assms(2)]
  from calculate_children_total [OF assms(1) resl] obtain gl
    where left: "calculate_children ?df LEFT_CHILDREN_COLUMN = Inr (map gl ?df)" ..
  from calculate_children_total [OF assms(1) resr] obtain gr
    where right: "calculate_children ?df RIGHT_CHILDREN_COLUMN = Inr (map gr ?df)" ..
  define self where "self = \<lparr>booster = b, tree_index = ti, tree_to_dataframe = ?df,
    children_left = map gl ?df, children_right = map gr ?df\<rparr>"
  have init: "XGBDTree_init b ti = Inr self"
    unfolding XGBDTree_init_def Let_def left right self_def by simp
  have n: "nnodes self = length ?df" by (simp add: nnodes_def self_def)
  have lens: "length (children_left self) = nnodes self" "length (children_right self) = nnodes self"
    by (simp_all add: nnodes_def self_def)
  have count: "count_list (children_left self @ children_right self) (int j) = (if j = 0 then 0 else 1)"
    if j: "j < nnodes self" for j
  proof -
    from j n have j': "j < length ?df" by simp
    have "count_list (children_left self @ children_right self) (int j) =
        count_list (map gl ?df) (int j) + count_list (map gr ?df) (int j)"
      by (simp add: self_def)
    also have "\<dots> = length (filter (\<lambda>c. refers_to ?df c j) (map Yes ?df)) +
        length (filter (\<lambda>c. refers_to ?df c j) (map No ?df))"
      using count_children_references [OF assms(1) resl left j']
        count_children_references [OF assms(1) resr right j']
      by (simp add: child_columns)
    also have "\<dots> = length (filter (\<lambda>c. refers_to ?df c j) (child_cells ?df))"
      by (simp add: child_cells_def)
    finally show ?thesis using once [OF j'] by simp
  qed
  have shape: "(i = 0 \<and> int i \<notin> set (children_left self) \<and> int i \<notin> set (children_right self)) \<or>
              (i \<noteq> 0 \<and> int i \<in> set (children_left self) \<and> int i \<notin> set (children_right self)) \<or>
              (i \<noteq> 0 \<and> int i \<notin> set (children_left self) \<and> int i \<in> set (children_right self))"
    if i: "i < nnodes self" for i
  proof (cases "i = 0")
    case True
    with count [OF i] have "count_list (children_left self @ children_right self) (int i) = 0"
      by simp
    then have "int i \<notin> set (children_left self @ children_right self)"
      by (metis count_list_0_iff)
    with True show ?thesis by simp
  next
    case False
    with count [OF i] have "count_list (children_left self @ children_right self) (int i) = 1"
      by simp
    from one_occurrence [OF this] False show ?thesis by blast
  qed
  have all_shape: "\<forall>i<nnodes self.
              (i = 0 \<and> int i \<notin> set (children_left self) \<and> int i \<notin> set (children_right self)) \<or>
              (i \<noteq> 0 \<and> int i \<in> set (children_left self) \<and> int i \<notin> set (children_right self)) \<or>
              (i \<noteq> 0 \<and> int i \<notin> set (children_left self) \<and> int i \<in> set (children_right self))"
    using shape by blast
  have all_count: "\<forall>i<nnodes self. i \<noteq> 0 \<longrightarrow>
              count_list (children_left self @ children_right self) (int i) = 1"
    using count by simp
  from init lens all_shape all_count show ?thesis
    by blast
qed

theorem child_arrays_form_tree_witness:
  "node_table 0 (get_tree_dataframe example_booster 0) \<and>
   tree_shaped_table (get_tree_dataframe example_booster 0) \<and>
   XGBDTree_init example_booster 0 = Inr example_tree \<and>
   length (children_left example_tree) = nnodes example_tree \<and>
   length (children_right example_tree) = nnodes example_tree \<and>
   nnodes example_tree = 3 \<and>
   count_list (children_left example_tree @ children_right example_tree) (int 1) = 1 \<and>
   count_list (children_left example_tree @ children_right example_tree) (int 2) = 1 \<and>
   int 0 \<notin> set (children_left example_tree) \<and> int 0 \<notin> set (children_right example_tree)"
proof -
  have nt: "node_table 0 (get_tree_dataframe example_booster 0)" by code_simp
  have ts: "tree_shaped_table (get_tree_dataframe example_booster 0)" by code_simp
  have init: "XGBDTree_init example_booster 0 = Inr example_tree" by code_simp
  have n: "nnodes example_tree = 3" by code_simp
  from child_arrays_form_tree [OF nt ts] init
  have len: "length (children_left example_tree) = nnodes example_tree"
      "length (children_right example_tree) = nnodes example_tree"
    and shape: "\<And>i. i < nnodes example_tree \<Longrightarrow>
              (i = 0 \<and> int i \<notin> set (children_left example_tree) \<and> int i \<notin> set (children_right example_tree)) \<or>
              (i \<noteq> 0 \<and> int i \<in> set (children_left example_tree) \<and> int i \<notin> set (children_right example_tree)) \<or>
              (i \<noteq> 0 \<and> int i \<notin> set (children_left example_tree) \<and> int i \<in> set (children_right example_tree))"
    and cnt: "\<And>i. i < nnodes example_tree \<Longrightarrow> i \<noteq> 0 \<Longrightarrow>
              count_list (children_left example_tree @ children_right example_tree) (int i) = 1"
    by auto
  from shape [of 0] n have "int 0 \<notin> set (children_left example_tree) \<and> int 0 \<notin> set (children_right example_tree)"
    by simp
  moreover from cnt [of 1] cnt [of 2] n
  have "count_list (children_left example_tree @ children_right example_tree) (int 1) = 1"
    "count_list (children_left example_tree @ children_right example_tree) (int 2) = 1"
    by simp_all
  ultimately show ?thesis using nt ts init len n by blast
qed

subsection \<open>A tree index without rows\<close>

lemma calculate_children_empty: "calculate_children [] column_name = Inr []"
  by (simp add: calculate_children_def split_column_value_def change_no_children_value_def)

lemma init_empty:
  assumes "get_tree_dataframe b ti = []"
  shows "XGBDTree_init b ti =
     Inr \<lparr>booster = b, tree_index = ti, tree_to_dataframe = [], children_left = [],
          children_right = []\<rparr>"
  by (simp add: XGBDTree_init_def assms calculate_children_empty)

text \<open>
  C7, as stated: if the tree index has no rows in the table, \<open>nnodes()\<close> returns 0 and
  \<open>get_node_samples()\<close> returns an empty mapping, and neither raises. For the example
  booster of two trees and the tree index 2, \<open>nnodes()\<close> is 0, and
  \<open>get_node_samples()\<close> raises \<open>IndexError\<close>: the matrix of leaf predictions has no
  column 2.
\<close>

theorem absent_tree_index_raises_counterexample:
  "get_tree_dataframe example_booster 2 = [] \<and>
   XGBDTree_init example_booster 2 = Inr absent_tree \<and>
   nnodes absent_tree = 0 \<and>
   get_node_samples absent_tree = Some (Inl IndexError)"
proof -
  have "get_tree_dataframe example_booster 2 = []" by code_simp
  moreover have "XGBDTree_init example_booster 2 = Inr absent_tree" by code_simp
  moreover have "nnodes absent_tree = 0" by code_simp
  moreover have "get_node_samples absent_tree = Some (Inl IndexError)"
    by (simp add: get_node_samples_def prediction_leaves_def absent_tree_def example_booster_def
        item_at_def)
  ultimately show ?thesis by blast
qed

text \<open>
  C7, amended: if the tree index has no rows in the table, \<open>nnodes()\<close> of the adapter
  for that index returns 0 and raises nothing, and \<open>get_node_samples()\<close> raises
  \<open>IndexError\<close> when the tree index is outside the columns of the matrix of leaf
  predictions, as it is for an index at or beyond the number of trees.
\<close>

theorem absent_tree_index:
  assumes "XGBDTree_init b ti = Inr self" and "get_tree_dataframe b ti = []"
  shows "nnodes self = 0 \<and>
         (ti < - int (length (pred_leaf b)) \<or> int (length (pred_leaf b)) \<le> ti \<longrightarrow>
            get_node_samples self = Some (Inl IndexError))"
proof -
  note fields = init_fields(1-3) [OF assms(1)]
  have n: "nnodes self = 0"
    using fields(3) assms(2) by (simp add: nnodes_def)
  have "get_node_samples self = Some (Inl IndexError)"
    if "ti < - int (length (pred_leaf b)) \<or> int (length (pred_leaf b)) \<le> ti"
  proof -
    from that have "item_at (pred_leaf b) ti = Inl IndexError"
      by (auto simp: item_at_def)
    then have "prediction_leaves self = Inl IndexError"
      by (simp add: prediction_leaves_def fields)
    then show ?thesis by (simp add: get_node_samples_def)
  qed
  with n show ?thesis by blast
qed

theorem absent_tree_index_witness:
  "XGBDTree_init example_booster 5 = Inr (absent_tree\<lparr>tree_index := 5\<rparr>) \<and>
   get_tree_dataframe example_booster 5 = [] \<and>
   int (length (pred_leaf example_booster)) \<le> 5 \<and>
   nnodes (absent_tree\<lparr>tree_index := 5\<rparr>) = 0 \<and>
   get_node_samples (absent_tree\<lparr>tree_index := 5\<rparr>) = Some (Inl IndexError)"
proof -
  have init: "XGBDTree_init example_booster 5 = Inr (absent_tree\<lparr>tree_index := 5\<rparr>)"
    by code_simp
  have empty: "get_tree_dataframe example_booster 5 = []" by code_simp
  have beyond: "int (length (pred_leaf example_booster)) \<le> 5" by code_simp
  from absent_tree_index [OF init empty] beyond init empty show ?thesis by simp
qed

end
